theory Spec2Isabelle
  imports Main "HOL-Library.Word"
begin

unbundle bit_operations_syntax

section \<open>The attribute binding\<close>

subsection \<open>Values, flags and enum constants\<close>

text \<open>
  JavaScript values, as far as \<^verbatim>\<open>!==\<close> tells them apart: primitives compare by
  value, objects by reference, and \<^verbatim>\<open>NaN\<close> differs from every value, itself included.
  Numbers other than \<^verbatim>\<open>NaN\<close> stand as integers.
\<close>

datatype jsval =
    Undefined
  | Null
  | Boolean bool
  | Number int
  | NaN
  | String string
  | Object nat

definition strict_eq :: "jsval \<Rightarrow> jsval \<Rightarrow> bool" where
  "strict_eq a b = (a = b \<and> a \<noteq> NaN)"

definition strict_neq :: "jsval \<Rightarrow> jsval \<Rightarrow> bool" where
  "strict_neq a b = (\<not> strict_eq a b)"

text \<open>
  The bit fields \<^verbatim>\<open>State\<close>, \<^verbatim>\<open>LifecycleFlags\<close>, \<^verbatim>\<open>BindingMode\<close> and
  \<^verbatim>\<open>ObserverType\<close> hold 32-bit integers: the operators \<^verbatim>\<open>&\<close>, \<^verbatim>\<open>|\<close> and
  \<^verbatim>\<open>~\<close> work on 32 bits, a result is truthy when it is not zero, and \<^verbatim>\<open>> 0\<close>
  reads it as a signed number.
\<close>

type_synonym flags = "32 word"

text \<open>
  The enums are imported from \<^verbatim>\<open>@aurelia/runtime\<close>; their numeric values are not
  part of the binding's source, so every operation takes them as a parameter.
\<close>

record enums =
  State_none :: flags
  State_isBinding :: flags
  State_isUnbinding :: flags
  State_isBound :: flags
  LF_none :: flags
  LF_updateTargetInstance :: flags
  LF_updateSourceExpression :: flags
  LF_fromBind :: flags
  LF_persistentBindingFlags :: flags
  LF_mustEvaluate :: flags
  BM_oneTime :: flags
  BM_toView :: flags
  BM_fromView :: flags
  OT_Node :: flags
  OT_Layout :: flags
  EK_AccessScope :: nat

definition toViewOrOneTime :: "enums \<Rightarrow> flags" where
  "toViewOrOneTime K = BM_toView K OR BM_oneTime K"

subsection \<open>Collaborators\<close>

text \<open>
  The source expression, the target observer and the clock are objects of other
  packages, and \<^verbatim>\<open>connect\<close>, \<^verbatim>\<open>unobserve\<close> and \<^verbatim>\<open>observerSlots\<close> come
  from the \<^verbatim>\<open>connectable\<close> mixin. Every method call on them is recorded, in order,
  in the list \<open>calls\<close> of the state; what a call or a property read returns is given
  by the environment as a function of the calls made so far, so an answer may depend on
  anything that happened before it. The calls are taken to return (none throws), and
  to leave the fields of the binding alone: \<^verbatim>\<open>$bind\<close> reads
  \<^verbatim>\<open>this.sourceExpression\<close> a second time because a binding behavior may have
  replaced it, and the model has the one expression of the environment throughout.
  Where the class asserts a member to be there (\<^verbatim>\<open>targetObserver!\<close>,
  \<^verbatim>\<open>assign!\<close>) the model takes it to be there.
\<close>

type_synonym scope = nat

datatype call =
    GetValue
  | SetValue jsval flags
  | Evaluate flags "scope option" "string option"
  | Assign flags "scope option" jsval
  | Connect flags "scope option" "string option"
  | Unobserve bool
  | ExprBind flags scope
  | ExprUnbind flags "scope option"
  | NewAttributeObserver flags
  | ObsBind flags
  | ObsUnbind flags
  | Subscribe
  | Unsubscribe
  | DateNow

record env =
  expr_kind :: nat
  expr_hasBind :: bool
  expr_hasUnbind :: bool
  expr_evaluate :: "call list \<Rightarrow> flags \<Rightarrow> scope option \<Rightarrow> string option \<Rightarrow> jsval"
  obs_type :: flags
  obs_getValue :: "call list \<Rightarrow> jsval"
  obs_lastUpdate :: "call list \<Rightarrow> int"
  obs_hasBind :: bool
  obs_hasUnbind :: bool
  obs_hasUnsubscribe :: bool
  observerSlots :: "call list \<Rightarrow> nat"
  date_now :: "call list \<Rightarrow> int"

text \<open>
  The two closures the binding hands to the scheduler, with the variables they capture:
  the render task of \<^verbatim>\<open>handleChange\<close> (\<^verbatim>\<open>updateTime\<close>, \<^verbatim>\<open>newValue\<close>,
  \<^verbatim>\<open>flags\<close>) and the micro task of \<^verbatim>\<open>$bind\<close> (\<^verbatim>\<open>flags\<close>, \<^verbatim>\<open>scope\<close>,
  \<^verbatim>\<open>part\<close>).
\<close>

datatype closure =
    RenderUpdate int jsval flags
  | BindUpdate flags scope "string option"

subsection \<open>State\<close>

text \<open>
  The fields of \<^verbatim>\<open>AttributeBinding\<close> that its methods write (\<^verbatim>\<open>$state\<close>,
  \<^verbatim>\<open>$scope\<close>, \<^verbatim>\<open>part\<close>, \<^verbatim>\<open>task\<close>, \<^verbatim>\<open>targetObserver\<close>,
  \<^verbatim>\<open>persistentFlags\<close>, \<^verbatim>\<open>version\<close>) and \<^verbatim>\<open>mode\<close>; the slot
  \<^verbatim>\<open>targetObserver[this.id]\<close>; the two queues of the scheduler; and the calls made on
  the collaborators. \<^verbatim>\<open>interceptor\<close> is the binding itself, as the class initialises it.
  A task is known by a number; \<^verbatim>\<open>null\<close> is \<open>None\<close>.
\<close>

record world =
  state :: flags
  scope_of :: "scope option"
  part :: "string option"
  task :: "nat option"
  targetObserver :: bool
  persistentFlags :: flags
  mode :: flags
  version :: nat
  obsSlot :: flags
  microQueue :: "(nat \<times> closure) list"
  renderQueue :: "(nat \<times> closure) list"
  nextTask :: nat
  calls :: "call list"

definition record_call :: "call \<Rightarrow> world \<Rightarrow> world" where
  "record_call c w = w\<lparr>calls := calls w @ [c]\<rparr>"

subsection \<open>Scheduler\<close>

text \<open>
  Modelled from the spec: the scheduler (\<^verbatim>\<open>IScheduler\<close>, \<^verbatim>\<open>ITask\<close>) is not
  part of the source. Section 4.4 of the specification gives it two first-in first-out
  queues, a micro task queue and a render queue; a task can be cancelled up to the moment
  it runs, a cancelled task never runs its callback, and a task is not reused once run.
\<close>

definition queueRenderTask :: "closure \<Rightarrow> world \<Rightarrow> nat \<times> world" where
  "queueRenderTask cb w =
     (nextTask w, w\<lparr>renderQueue := renderQueue w @ [(nextTask w, cb)], nextTask := Suc (nextTask w)\<rparr>)"

text \<open>
  Modelled from the spec: \<^verbatim>\<open>queueMicroTask\<close>, the same on the micro task queue
  (section 4.4).
\<close>

definition queueMicroTask :: "closure \<Rightarrow> world \<Rightarrow> nat \<times> world" where
  "queueMicroTask cb w =
     (nextTask w, w\<lparr>microQueue := microQueue w @ [(nextTask w, cb)], nextTask := Suc (nextTask w)\<rparr>)"

text \<open>
  Modelled from the spec: \<^verbatim>\<open>ITask.cancel\<close>. A waiting task leaves its queue and
  so never runs; on a task that is not waiting nothing happens (section 4.4).
\<close>

definition cancel :: "nat \<Rightarrow> world \<Rightarrow> world" where
  "cancel t w =
     w\<lparr>microQueue := filter (\<lambda>e. fst e \<noteq> t) (microQueue w),
       renderQueue := filter (\<lambda>e. fst e \<noteq> t) (renderQueue w)\<rparr>"

text \<open>The tasks that wait in the two queues.\<close>

definition pending :: "world \<Rightarrow> nat list" where
  "pending w = map fst (microQueue w @ renderQueue w)"

subsection \<open>Methods\<close>

text \<open>
  The methods of \<^verbatim>\<open>AttributeBinding\<close>, statement by statement; \<^verbatim>\<open>$bind\<close> and
  \<^verbatim>\<open>$unbind\<close> are \<open>dollar_bind\<close> and \<open>dollar_unbind\<close>. \<open>evaluate\<close> is the
  call \<^verbatim>\<open>sourceExpression.evaluate(flags, scope, locator, part)\<close>. A \<^verbatim>\<open>throw\<close>
  is the left value of the result.
\<close>

definition evaluate :: "env \<Rightarrow> flags \<Rightarrow> scope option \<Rightarrow> string option \<Rightarrow> world \<Rightarrow> jsval \<times> world" where
  "evaluate E fl sc p w =
     (expr_evaluate E (calls w) fl sc p, record_call (Evaluate fl sc p) w)"

definition updateTarget :: "enums \<Rightarrow> jsval \<Rightarrow> flags \<Rightarrow> world \<Rightarrow> world" where
  "updateTarget K v fl w =
     (let fl = fl OR persistentFlags w
      in record_call (SetValue v (fl OR LF_updateTargetInstance K)) w)"

definition updateSource :: "enums \<Rightarrow> jsval \<Rightarrow> flags \<Rightarrow> world \<Rightarrow> world" where
  "updateSource K v fl w =
     (let fl = fl OR persistentFlags w
      in record_call (Assign (fl OR LF_updateSourceExpression K) (scope_of w) v) w)"

datatype error = ReporterError nat flags

definition handleChange ::
  "enums \<Rightarrow> env \<Rightarrow> jsval \<Rightarrow> jsval \<Rightarrow> flags \<Rightarrow> world \<Rightarrow> error + world" where
  "handleChange K E newValue previousValue0 flags0 w =
     (if state w AND State_isBound K = 0 then Inr w
      else
        let fl = flags0 OR persistentFlags w;
            fl = (if mode w = BM_fromView K
                  then (fl AND NOT (LF_updateTargetInstance K)) OR LF_updateSourceExpression K
                  else fl)
        in
          if fl AND LF_updateTargetInstance K \<noteq> 0 then
            let previousValue = obs_getValue E (calls w);
                w = record_call GetValue w;
                (newValue, w) =
                  (if expr_kind E \<noteq> EK_AccessScope K \<or> observerSlots E (calls w) > 1
                   then evaluate E fl (scope_of w) (part w) w
                   else (newValue, w));
                w = (if strict_neq newValue previousValue then
                       if sint (obs_type E AND OT_Layout K) > 0 then
                         let w = (case task w of Some t \<Rightarrow> cancel t w | None \<Rightarrow> w);
                             updateTime = date_now E (calls w);
                             w = record_call DateNow w;
                             (t, w) = queueRenderTask (RenderUpdate updateTime newValue fl) w
                         in w\<lparr>task := Some t\<rparr>
                       else updateTarget K newValue fl w
                     else w);
                w = (if mode w AND BM_oneTime K = 0 then
                       let w = w\<lparr>version := version w + 1\<rparr>;
                           w = record_call (Connect fl (scope_of w) (part w)) w
                       in record_call (Unobserve False) w
                     else w)
            in Inr w
          else if fl AND LF_updateSourceExpression K \<noteq> 0 then
            let (current, w) = evaluate E fl (scope_of w) (part w) w
            in Inr (if strict_neq newValue current then updateSource K newValue fl w else w)
          else Inl (ReporterError 15 fl))"

definition dollar_unbind :: "enums \<Rightarrow> env \<Rightarrow> flags \<Rightarrow> world \<Rightarrow> world" where
  "dollar_unbind K E fl w =
     (if state w AND State_isBound K = 0 then w
      else
        let w = w\<lparr>state := state w OR State_isUnbinding K\<rparr>;
            w = w\<lparr>persistentFlags := LF_none K\<rparr>;
            w = (if expr_hasUnbind E then record_call (ExprUnbind fl (scope_of w)) w else w);
            w = w\<lparr>scope_of := None\<rparr>;
            w = (if obs_hasUnbind E then record_call (ObsUnbind fl) w else w);
            w = (if obs_hasUnsubscribe E then
                   let w = record_call Unsubscribe w
                   in w\<lparr>obsSlot := obsSlot w AND NOT (LF_updateSourceExpression K)\<rparr>
                 else w);
            w = record_call (Unobserve True) w
        in w\<lparr>state := state w AND NOT (State_isBound K OR State_isUnbinding K)\<rparr>)"

definition dollar_bind ::
  "enums \<Rightarrow> env \<Rightarrow> flags \<Rightarrow> scope \<Rightarrow> string option \<Rightarrow> world \<Rightarrow> world" where
  "dollar_bind K E fl sc p w =
     (if state w AND State_isBound K \<noteq> 0 \<and> scope_of w = Some sc then w
      else
        let w = (if state w AND State_isBound K \<noteq> 0
                 then dollar_unbind K E (fl OR LF_fromBind K) w else w);
            w = w\<lparr>state := state w OR State_isBinding K\<rparr>;
            w = w\<lparr>persistentFlags := fl AND LF_persistentBindingFlags K\<rparr>;
            w = w\<lparr>scope_of := Some sc\<rparr>;
            w = w\<lparr>part := p\<rparr>;
            w = (if expr_hasBind E then record_call (ExprBind fl sc) w else w);
            w = (if \<not> targetObserver w
                 then (record_call (NewAttributeObserver fl) w)\<lparr>targetObserver := True\<rparr>
                 else w);
            w = (if obs_hasBind E then record_call (ObsBind fl) w else w);
            w = (if mode w AND toViewOrOneTime K \<noteq> 0 then
                   let w = (if obs_type E AND OT_Node K \<noteq> 0 then
                              let w = (case task w of Some t \<Rightarrow> cancel t w | None \<Rightarrow> w);
                                  (t, w) = queueMicroTask (BindUpdate fl sc p) w
                              in w\<lparr>task := Some t\<rparr>
                            else w);
                       (v, w) = evaluate E fl (Some sc) p w
                   in updateTarget K v fl w
                 else w);
            w = (if mode w AND BM_toView K \<noteq> 0
                 then record_call (Connect fl (Some sc) p) w else w);
            w = (if mode w AND BM_fromView K \<noteq> 0 then
                   let w = w\<lparr>obsSlot := obsSlot w OR LF_updateSourceExpression K\<rparr>
                   in record_call Subscribe w
                 else w);
            w = w\<lparr>state := state w OR State_isBound K\<rparr>
        in w\<lparr>state := state w AND NOT (State_isBinding K)\<rparr>)"

definition connect :: "enums \<Rightarrow> flags \<Rightarrow> world \<Rightarrow> world" where
  "connect K fl w =
     (if state w AND State_isBound K \<noteq> 0 then
        let fl = fl OR persistentFlags w
        in record_call (Connect (fl OR LF_mustEvaluate K) (scope_of w) (part w)) w
      else w)"

text \<open>
  The bodies of the two closures. The render task reads \<^verbatim>\<open>lastUpdate\<close> and
  \<^verbatim>\<open>$state\<close> when it runs; the micro task evaluates the expression when it runs.
\<close>

fun run_closure :: "enums \<Rightarrow> env \<Rightarrow> closure \<Rightarrow> world \<Rightarrow> world" where
  "run_closure K E (RenderUpdate updateTime newValue fl) w =
     (if updateTime > obs_lastUpdate E (calls w) \<and> sint (state w AND State_isBound K) > 0
      then updateTarget K newValue fl w else w)"
| "run_closure K E (BindUpdate fl sc p) w =
     (let (v, w) = evaluate E fl (Some sc) p w in updateTarget K v fl w)"

text \<open>
  Modelled from the spec: the scheduler running the oldest task of a queue (section 4.4:
  each queue is first-in first-out, and a task that ran is gone).
\<close>

definition runMicroTask :: "enums \<Rightarrow> env \<Rightarrow> world \<Rightarrow> world" where
  "runMicroTask K E w =
     (case microQueue w of
        [] \<Rightarrow> w
      | e # rest \<Rightarrow> run_closure K E (snd e) (w\<lparr>microQueue := rest\<rparr>))"

definition runRenderTask :: "enums \<Rightarrow> env \<Rightarrow> world \<Rightarrow> world" where
  "runRenderTask K E w =
     (case renderQueue w of
        [] \<Rightarrow> w
      | e # rest \<Rightarrow> run_closure K E (snd e) (w\<lparr>renderQueue := rest\<rparr>))"

text \<open>
  A binding as the constructor leaves it: \<^verbatim>\<open>$state\<close> is \<^verbatim>\<open>State.none\<close>,
  \<^verbatim>\<open>$scope\<close> and \<^verbatim>\<open>task\<close> are \<^verbatim>\<open>null\<close>, no target observer yet, and nothing
  queued or called.
\<close>

definition new_binding :: "enums \<Rightarrow> flags \<Rightarrow> world" where
  "new_binding K m =
     \<lparr>state = State_none K, scope_of = None, part = None, task = None,
      targetObserver = False, persistentFlags = LF_none K, mode = m, version = 0,
      obsSlot = 0, microQueue = [], renderQueue = [], nextTask = 0, calls = []\<rparr>"

section \<open>The router\<close>

text \<open>
  Modelled from the spec: the router and its route definition resolver are not part of
  the source, which holds only their tests. The definitions below follow sections 3, 4.1,
  4.2 and 6 of the specification; the lifecycle hooks that run after a path is resolved
  are left out, so \<open>load\<close> returns the resolved chain of components or the error.
\<close>

datatype routing_mode = ConfiguredFirst | ConfiguredOnly

text \<open>
  Modelled from the spec: the component route metadata of sections 3 and 6, which the
  source does not hold. A component with its static metadata: its name, the \<^verbatim>\<open>path\<close> of its own route
  metadata if any, the \<^verbatim>\<open>children\<close> of its route configuration in order, each either a
  pair of a path and a component (\<open>Some\<close> path) or a bare component reference
  (\<open>None\<close>), and its dependencies. A component is identified by its name.
\<close>

datatype component =
  Component (cname: string) (cpath: "string option")
    (cchildren: "(string option \<times> component) list") (cdeps: "component list")

text \<open>
  Modelled from the spec: the RouteMatchError of sections 4.1 and 7, identifying the
  unmatched segment and the path of the node at which it failed
  (\<^verbatim>\<open>'<segment>' ... did not match ... '<ancestor-path>'\<close>).
\<close>

datatype route_error = RouteMatchError string string

text \<open>
  Modelled from the spec: the matching rules of section 4.1, whose code is not in the
  source. A child configured with a path is matched by that path. A bare component
  listed as a child is matched by its own \<^verbatim>\<open>path\<close> if it declares one and by its name
  otherwise. A component that is only a dependency is matched by its name, in mode
  \<^verbatim>\<open>configured-first\<close> only, and never by a declared path that differs from its name.
  Configured children are tried first, in order.
\<close>

fun child_matches :: "string \<Rightarrow> string option \<times> component \<Rightarrow> bool" where
  "child_matches seg (Some p, c) = (seg = p)"
| "child_matches seg (None, c) = (case cpath c of Some p \<Rightarrow> seg = p | None \<Rightarrow> seg = cname c)"

definition dep_matches :: "string \<Rightarrow> component \<Rightarrow> bool" where
  "dep_matches seg c =
     (seg = cname c \<and> (case cpath c of Some p \<Rightarrow> p = seg | None \<Rightarrow> True))"

definition match_segment :: "routing_mode \<Rightarrow> component \<Rightarrow> string \<Rightarrow> component option" where
  "match_segment rm node seg =
     (case find (child_matches seg) (cchildren node) of
        Some e \<Rightarrow> Some (snd e)
      | None \<Rightarrow>
          (case rm of
             ConfiguredFirst \<Rightarrow> find (dep_matches seg) (cdeps node)
           | ConfiguredOnly \<Rightarrow> None))"

text \<open>
  Modelled from the spec: the path cited by an error is the names of the chain walked so
  far, joined by \<^verbatim>\<open>/\<close>, as in \<^verbatim>\<open>root/a11/b11\<close> (section 4.2).
\<close>

fun join_with :: "string \<Rightarrow> string list \<Rightarrow> string" where
  "join_with sep [] = []"
| "join_with sep [x] = x"
| "join_with sep (x # y # ys) = x @ sep @ join_with sep (y # ys)"

definition friendly_path :: "component list \<Rightarrow> string" where
  "friendly_path trail = join_with ''/'' (map cname trail)"

text \<open>
  Modelled from the spec: section 4.2, steps 2 and 3, whose code is not in the source.
  One segment is consumed per level, from the root. \<open>anc\<close> holds the
  components above the current node, root first. A segment that matches nothing, or
  that leads to a component already on the path, fails with the segment and the path
  walked so far.
\<close>

fun resolve ::
  "routing_mode \<Rightarrow> component list \<Rightarrow> component \<Rightarrow> string list \<Rightarrow> route_error + component list" where
  "resolve rm anc node [] = Inr (anc @ [node])"
| "resolve rm anc node (seg # segs) =
     (case match_segment rm node seg of
        None \<Rightarrow> Inl (RouteMatchError seg (friendly_path (anc @ [node])))
      | Some c \<Rightarrow>
          if cname c \<in> set (map cname (anc @ [node]))
          then Inl (RouteMatchError seg (friendly_path (anc @ [node])))
          else resolve rm (anc @ [node]) c segs)"

text \<open>
  Modelled from the spec: section 4.2, step 1, the path split at every \<^verbatim>\<open>/\<close>, and
  \<^verbatim>\<open>load\<close> of section 6 up to the resolved chain.
\<close>

fun split_path :: "string \<Rightarrow> string list" where
  "split_path [] = [[]]"
| "split_path (c # cs) =
     (if c = CHR ''/'' then [] # split_path cs
      else (case split_path cs of s # ss \<Rightarrow> (c # s) # ss | [] \<Rightarrow> [[c]]))"

definition load :: "routing_mode \<Rightarrow> component \<Rightarrow> string \<Rightarrow> route_error + component list" where
  "load rm root path = resolve rm [] root (split_path path)"

text \<open>
  The components of the router tests: \<^verbatim>\<open>a01\<close> without and with its own path, a
  root that lists a component as a dependency or as a child, and the chain
  \<^verbatim>\<open>root\<close>, \<^verbatim>\<open>a11\<close>, \<^verbatim>\<open>b11\<close>, \<^verbatim>\<open>c01\<close> of dependencies.
\<close>

definition A01 :: component where
  "A01 = Component ''a01'' None [] []"

definition A01_with_path :: component where
  "A01_with_path = Component ''a01'' (Some ''a'') [] []"

definition Root_with_dependency :: "component \<Rightarrow> component" where
  "Root_with_dependency c = Component ''root'' None [] [c]"


definition C01 :: component where
  "C01 = Component ''c01'' None [] []"

definition B11 :: component where
  "B11 = Component ''b11'' None [] [C01]"

definition A11 :: component where
  "A11 = Component ''a11'' None [] [B11]"

definition Root_deep :: component where
  "Root_deep = Component ''root'' None [] [A11]"

text \<open>A chain in which \<^verbatim>\<open>b11\<close> lists a component named \<^verbatim>\<open>a11\<close> again.\<close>

definition B11_back :: component where
  "B11_back = Component ''b11'' None [] [Component ''a11'' None [] []]"

definition A11_back :: component where
  "A11_back = Component ''a11'' None [] [B11_back]"

definition Root_back :: component where
  "Root_back = Component ''root'' None [] [A11_back]"

subsection \<open>Notions used in the statements\<close>

text \<open>The flags of \<^verbatim>\<open>handleChange\<close> after its first two statements.\<close>

definition adjusted_flags :: "enums \<Rightarrow> flags \<Rightarrow> world \<Rightarrow> flags" where
  "adjusted_flags K flags0 w =
     (let fl = flags0 OR persistentFlags w
      in if mode w = BM_fromView K
         then (fl AND NOT (LF_updateTargetInstance K)) OR LF_updateSourceExpression K
         else fl)"

text \<open>
  The value the target branch of \<^verbatim>\<open>handleChange\<close> compares with the observer's: the
  expression evaluated again, unless the expression is a lone \<^verbatim>\<open>AccessScope\<close>, and
  the calls made up to the comparison.
\<close>

definition computed_value :: "enums \<Rightarrow> env \<Rightarrow> jsval \<Rightarrow> flags \<Rightarrow> world \<Rightarrow> jsval" where
  "computed_value K E newValue flags0 w =
     (if expr_kind E \<noteq> EK_AccessScope K \<or> observerSlots E (calls w @ [GetValue]) > 1
      then expr_evaluate E (calls w @ [GetValue]) (adjusted_flags K flags0 w) (scope_of w) (part w)
      else newValue)"

definition call_trace :: "enums \<Rightarrow> env \<Rightarrow> flags \<Rightarrow> world \<Rightarrow> call list" where
  "call_trace K E flags0 w =
     (if expr_kind E \<noteq> EK_AccessScope K \<or> observerSlots E (calls w @ [GetValue]) > 1
      then calls w @ [GetValue, Evaluate (adjusted_flags K flags0 w) (scope_of w) (part w)]
      else calls w @ [GetValue])"

text \<open>The writes to the target and to the source among the recorded calls.\<close>

fun is_SetValue :: "call \<Rightarrow> bool" where
  "is_SetValue (SetValue v fl) = True"
| "is_SetValue c = False"

fun is_Assign :: "call \<Rightarrow> bool" where
  "is_Assign (Assign fl sc v) = True"
| "is_Assign c = False"

definition target_writes :: "world \<Rightarrow> call list" where
  "target_writes w = filter is_SetValue (calls w)"

definition source_writes :: "world \<Rightarrow> call list" where
  "source_writes w = filter is_Assign (calls w)"

text \<open>
  At most one task is waiting in the queues, and it is the one the binding's
  \<^verbatim>\<open>task\<close> field names.
\<close>

definition one_pending :: "world \<Rightarrow> bool" where
  "one_pending w = (length (pending w) \<le> 1 \<and> set (pending w) \<subseteq> set_option (task w))"

text \<open>The calls made by \<^verbatim>\<open>$bind\<close> before it evaluates the expression.\<close>

definition trace_before_push :: "enums \<Rightarrow> env \<Rightarrow> flags \<Rightarrow> scope \<Rightarrow> world \<Rightarrow> call list" where
  "trace_before_push K E fl sc w =
     calls (if state w AND State_isBound K \<noteq> 0
            then dollar_unbind K E (fl OR LF_fromBind K) w else w) @
     (if expr_hasBind E then [ExprBind fl sc] else []) @
     (if \<not> targetObserver w then [NewAttributeObserver fl] else []) @
     (if obs_hasBind E then [ObsBind fl] else [])"

text \<open>The blocks of \<^verbatim>\<open>$bind\<close> after its guard, one definition each.\<close>

definition bind_enter :: "enums \<Rightarrow> env \<Rightarrow> flags \<Rightarrow> scope \<Rightarrow> string option \<Rightarrow> world \<Rightarrow> world" where
  "bind_enter K E fl sc p w =
     (let w = w\<lparr>state := state w OR State_isBinding K\<rparr>;
          w = w\<lparr>persistentFlags := fl AND LF_persistentBindingFlags K\<rparr>;
          w = w\<lparr>scope_of := Some sc\<rparr>;
          w = w\<lparr>part := p\<rparr>
      in if expr_hasBind E then record_call (ExprBind fl sc) w else w)"

definition bind_observer :: "env \<Rightarrow> flags \<Rightarrow> world \<Rightarrow> world" where
  "bind_observer E fl w =
     (let w = (if \<not> targetObserver w
               then (record_call (NewAttributeObserver fl) w)\<lparr>targetObserver := True\<rparr>
               else w)
      in if obs_hasBind E then record_call (ObsBind fl) w else w)"

definition bind_push :: "enums \<Rightarrow> env \<Rightarrow> flags \<Rightarrow> scope \<Rightarrow> string option \<Rightarrow> world \<Rightarrow> world" where
  "bind_push K E fl sc p w =
     (if mode w AND toViewOrOneTime K \<noteq> 0 then
        let w = (if obs_type E AND OT_Node K \<noteq> 0 then
                   let w = (case task w of Some t \<Rightarrow> cancel t w | None \<Rightarrow> w);
                       (t, w) = queueMicroTask (BindUpdate fl sc p) w
                   in w\<lparr>task := Some t\<rparr>
                 else w);
            (v, w) = evaluate E fl (Some sc) p w
        in updateTarget K v fl w
      else w)"

definition bind_finish :: "enums \<Rightarrow> flags \<Rightarrow> scope \<Rightarrow> string option \<Rightarrow> world \<Rightarrow> world" where
  "bind_finish K fl sc p w =
     (let w = (if mode w AND BM_toView K \<noteq> 0
               then record_call (Connect fl (Some sc) p) w else w);
          w = (if mode w AND BM_fromView K \<noteq> 0 then
                 let w = w\<lparr>obsSlot := obsSlot w OR LF_updateSourceExpression K\<rparr>
                 in record_call Subscribe w
               else w);
          w = w\<lparr>state := state w OR State_isBound K\<rparr>
      in w\<lparr>state := state w AND NOT (State_isBinding K)\<rparr>)"

subsection \<open>Concrete inputs\<close>

text \<open>
  One choice of the enum values, an environment with fixed answers whose observer has
  type \<open>ty\<close>, and the bindings they give, for running the model: \<open>sample_bound m ty\<close>
  is a new binding of mode \<open>m\<close> after \<^verbatim>\<open>$bind\<close> to scope 1, and
  \<open>sample_unbound m ty\<close> is that binding after \<^verbatim>\<open>$unbind\<close>. With these values mode
  2 is \<^verbatim>\<open>toView\<close> and mode 4 is \<^verbatim>\<open>fromView\<close>; type 2 is \<^verbatim>\<open>Node\<close> and type 4
  is \<^verbatim>\<open>Layout\<close>.
\<close>

definition sample_enums :: enums where
  "sample_enums =
     \<lparr>State_none = 0, State_isBinding = 1, State_isUnbinding = 2, State_isBound = 4,
      LF_none = 0, LF_updateTargetInstance = 1, LF_updateSourceExpression = 2,
      LF_fromBind = 16, LF_persistentBindingFlags = 96, LF_mustEvaluate = 1024,
      BM_oneTime = 1, BM_toView = 2, BM_fromView = 4,
      OT_Node = 2, OT_Layout = 4, EK_AccessScope = 10082\<rparr>"

definition sample_env :: "flags \<Rightarrow> env" where
  "sample_env ty =
     \<lparr>expr_kind = 10082, expr_hasBind = False, expr_hasUnbind = False,
      expr_evaluate = (\<lambda>tr fl sc p. String ''x''),
      obs_type = ty,
      obs_getValue = (\<lambda>tr. Undefined),
      obs_lastUpdate = (\<lambda>tr. 0),
      obs_hasBind = False, obs_hasUnbind = False, obs_hasUnsubscribe = True,
      observerSlots = (\<lambda>tr. 1),
      date_now = (\<lambda>tr. 1 + int (length tr))\<rparr>"

definition sample_bound :: "flags \<Rightarrow> flags \<Rightarrow> world" where
  "sample_bound m ty =
     dollar_bind sample_enums (sample_env ty) 0 1 None (new_binding sample_enums m)"


section \<open>Properties of the attribute binding\<close>

subsection \<open>The concrete bindings\<close>

lemma sample_bound_toView_plain:
  "sample_bound 2 0 =
     \<lparr>state = 4, scope_of = Some 1, part = None, task = None, targetObserver = True,
      persistentFlags = 0, mode = 2, version = 0, obsSlot = 0, microQueue = [],
      renderQueue = [], nextTask = 0,
      calls = [NewAttributeObserver 0, Evaluate 0 (Some 1) None, SetValue (String ''x'') 1,
               Connect 0 (Some 1) None]\<rparr>"
  by (simp add: sample_bound_def sample_enums_def sample_env_def new_binding_def dollar_bind_def
      Let_def record_call_def evaluate_def updateTarget_def toViewOrOneTime_def)

lemma sample_bound_toView_layout:
  "sample_bound 2 4 =
     \<lparr>state = 4, scope_of = Some 1, part = None, task = None, targetObserver = True,
      persistentFlags = 0, mode = 2, version = 0, obsSlot = 0, microQueue = [],
      renderQueue = [], nextTask = 0,
      calls = [NewAttributeObserver 0, Evaluate 0 (Some 1) None, SetValue (String ''x'') 1,
               Connect 0 (Some 1) None]\<rparr>"
  by (simp add: sample_bound_def sample_enums_def sample_env_def new_binding_def dollar_bind_def
      Let_def record_call_def evaluate_def updateTarget_def toViewOrOneTime_def)


lemma sample_bound_fromView_plain:
  "sample_bound 4 0 =
     \<lparr>state = 4, scope_of = Some 1, part = None, task = None, targetObserver = True,
      persistentFlags = 0, mode = 4, version = 0, obsSlot = 2, microQueue = [],
      renderQueue = [], nextTask = 0,
      calls = [NewAttributeObserver 0, Subscribe]\<rparr>"
  by (simp add: sample_bound_def sample_enums_def sample_env_def new_binding_def dollar_bind_def
      Let_def record_call_def evaluate_def updateTarget_def toViewOrOneTime_def)


subsection \<open>Change notifications\<close>

text \<open>
  C3. On a bound binding, a change whose value is strictly equal to the one already there
  is not propagated. In the target branch (the adjusted flags hold
  \<^verbatim>\<open>updateTargetInstance\<close>), when the computed value \<^verbatim>\<open>===\<close> the observer's
  \<^verbatim>\<open>getValue()\<close>, no \<^verbatim>\<open>setValue\<close> call is made and no task is queued. In the
  source branch (\<^verbatim>\<open>updateSourceExpression\<close> only), when the incoming value
  \<^verbatim>\<open>===\<close> the expression's evaluated value, no \<^verbatim>\<open>assign\<close> call is made.
\<close>

theorem handleChange_equal_value_not_propagated:
  assumes "state w AND State_isBound K \<noteq> 0"
  shows "(adjusted_flags K fl w AND LF_updateTargetInstance K \<noteq> 0 \<and>
          strict_eq (computed_value K E nv fl w) (obs_getValue E (calls w)) \<longrightarrow>
            (\<exists>w'. handleChange K E nv pv fl w = Inr w' \<and>
                  target_writes w' = target_writes w \<and> source_writes w' = source_writes w \<and>
                  microQueue w' = microQueue w \<and> renderQueue w' = renderQueue w \<and>
                  task w' = task w)) \<and>
         (adjusted_flags K fl w AND LF_updateTargetInstance K = 0 \<and>
          adjusted_flags K fl w AND LF_updateSourceExpression K \<noteq> 0 \<and>
          strict_eq nv (expr_evaluate E (calls w) (adjusted_flags K fl w) (scope_of w) (part w)) \<longrightarrow>
            (\<exists>w'. handleChange K E nv pv fl w = Inr w' \<and>
                  source_writes w' = source_writes w \<and> target_writes w' = target_writes w))"
  using assms
  by (simp add: handleChange_def adjusted_flags_def computed_value_def Let_def evaluate_def
      record_call_def strict_neq_def target_writes_def source_writes_def split: prod.splits)

theorem handleChange_equal_value_not_propagated_witness:
  "state (sample_bound 2 0) AND State_isBound sample_enums \<noteq> 0 \<and>
   adjusted_flags sample_enums 1 (sample_bound 2 0) AND LF_updateTargetInstance sample_enums \<noteq> 0 \<and>
   strict_eq (computed_value sample_enums (sample_env 0) Undefined 1 (sample_bound 2 0))
     (obs_getValue (sample_env 0) (calls (sample_bound 2 0))) \<and>
   (\<exists>w'. handleChange sample_enums (sample_env 0) Undefined (String ''x'') 1 (sample_bound 2 0) = Inr w' \<and>
         target_writes w' = target_writes (sample_bound 2 0)) \<and>
   state (sample_bound 4 0) AND State_isBound sample_enums \<noteq> 0 \<and>
   adjusted_flags sample_enums 0 (sample_bound 4 0) AND LF_updateTargetInstance sample_enums = 0 \<and>
   adjusted_flags sample_enums 0 (sample_bound 4 0) AND LF_updateSourceExpression sample_enums \<noteq> 0 \<and>
   strict_eq (String ''x'')
     (expr_evaluate (sample_env 0) (calls (sample_bound 4 0))
        (adjusted_flags sample_enums 0 (sample_bound 4 0))
        (scope_of (sample_bound 4 0)) (part (sample_bound 4 0))) \<and>
   (\<exists>w'. handleChange sample_enums (sample_env 0) (String ''x'') Undefined 0 (sample_bound 4 0) = Inr w' \<and>
         source_writes w' = source_writes (sample_bound 4 0))"
proof -
  let ?K = sample_enums and ?E = "sample_env 0"
  let ?a = "sample_bound 2 0" and ?b = "sample_bound 4 0"
  have a1: "state ?a AND State_isBound ?K \<noteq> 0"
    by (simp add: sample_bound_toView_plain sample_enums_def)
  have a2: "adjusted_flags ?K 1 ?a AND LF_updateTargetInstance ?K \<noteq> 0"
    by (simp add: sample_bound_toView_plain sample_enums_def adjusted_flags_def)
  have a3: "strict_eq (computed_value ?K ?E Undefined 1 ?a) (obs_getValue ?E (calls ?a))"
    by (simp add: sample_enums_def sample_env_def computed_value_def strict_eq_def)
  have b1: "state ?b AND State_isBound ?K \<noteq> 0"
    by (simp add: sample_bound_fromView_plain sample_enums_def)
  have b2: "adjusted_flags ?K 0 ?b AND LF_updateTargetInstance ?K = 0"
    by (simp add: sample_bound_fromView_plain sample_enums_def adjusted_flags_def)
  have b3: "adjusted_flags ?K 0 ?b AND LF_updateSourceExpression ?K \<noteq> 0"
    by (simp add: sample_bound_fromView_plain sample_enums_def adjusted_flags_def)
  have b4: "strict_eq (String ''x'')
     (expr_evaluate ?E (calls ?b) (adjusted_flags ?K 0 ?b) (scope_of ?b) (part ?b))"
    by (simp add: sample_env_def strict_eq_def)
  from handleChange_equal_value_not_propagated [OF a1, of 1 ?E Undefined "String ''x''"] a2 a3
  have a: "\<exists>w'. handleChange ?K ?E Undefined (String ''x'') 1 ?a = Inr w' \<and>
         target_writes w' = target_writes ?a"
    by blast
  from handleChange_equal_value_not_propagated [OF b1, of 0 ?E "String ''x''" Undefined] b2 b3 b4
  have b: "\<exists>w'. handleChange ?K ?E (String ''x'') Undefined 0 ?b = Inr w' \<and>
         source_writes w' = source_writes ?b"
    by blast
  show ?thesis using a1 a2 a3 a b1 b2 b3 b4 b by blast
qed

text \<open>
  C4. On a bound binding \<^verbatim>\<open>handleChange\<close> throws \<^verbatim>\<open>Reporter.error(15, flags)\<close>
  exactly when the flags, after \<^verbatim>\<open>persistentFlags\<close> and the \<^verbatim>\<open>fromView\<close>
  adjustment, hold neither \<^verbatim>\<open>updateTargetInstance\<close> nor
  \<^verbatim>\<open>updateSourceExpression\<close>; it throws nothing else, and with either flag it returns.
\<close>

theorem handleChange_throws_iff_no_update_flag:
  assumes "state w AND State_isBound K \<noteq> 0"
  shows "(handleChange K E nv pv fl w = Inl (ReporterError 15 (adjusted_flags K fl w)) \<longleftrightarrow>
            adjusted_flags K fl w AND LF_updateTargetInstance K = 0 \<and>
            adjusted_flags K fl w AND LF_updateSourceExpression K = 0) \<and>
         ((\<exists>e. handleChange K E nv pv fl w = Inl e) \<longleftrightarrow>
            adjusted_flags K fl w AND LF_updateTargetInstance K = 0 \<and>
            adjusted_flags K fl w AND LF_updateSourceExpression K = 0) \<and>
         ((\<exists>w'. handleChange K E nv pv fl w = Inr w') \<longleftrightarrow>
            adjusted_flags K fl w AND LF_updateTargetInstance K \<noteq> 0 \<or>
            adjusted_flags K fl w AND LF_updateSourceExpression K \<noteq> 0)"
  using assms
  by (simp add: handleChange_def adjusted_flags_def Let_def split: prod.splits)

theorem handleChange_throws_iff_no_update_flag_witness:
  "state (sample_bound 2 0) AND State_isBound sample_enums \<noteq> 0 \<and>
   handleChange sample_enums (sample_env 0) (String ''y'') Undefined 0 (sample_bound 2 0) =
     Inl (ReporterError 15 0) \<and>
   (\<exists>w'. handleChange sample_enums (sample_env 0) (String ''y'') Undefined 1 (sample_bound 2 0) =
     Inr w')"
proof -
  let ?K = sample_enums and ?E = "sample_env 0" and ?a = "sample_bound 2 0"
  have a1: "state ?a AND State_isBound ?K \<noteq> 0"
    by (simp add: sample_bound_toView_plain sample_enums_def)
  have f0: "adjusted_flags ?K 0 ?a = 0"
    by (simp add: sample_bound_toView_plain sample_enums_def adjusted_flags_def)
  have f1: "adjusted_flags ?K 1 ?a = 1"
    by (simp add: sample_bound_toView_plain sample_enums_def adjusted_flags_def)
  have k: "LF_updateTargetInstance ?K = 1"
    by (simp add: sample_enums_def)
  from handleChange_throws_iff_no_update_flag [OF a1, of ?E "String ''y''" Undefined 0] f0
  have e: "handleChange ?K ?E (String ''y'') Undefined 0 ?a = Inl (ReporterError 15 0)"
    by simp
  from handleChange_throws_iff_no_update_flag [OF a1, of ?E "String ''y''" Undefined 1] f1 k
  have r: "\<exists>w'. handleChange ?K ?E (String ''y'') Undefined 1 ?a = Inr w'"
    by simp
  show ?thesis using a1 e r by blast
qed

subsection \<open>Deferred writes to layout observers\<close>

lemma filter_all_out: "set (map fst xs) \<subseteq> {t} \<Longrightarrow> filter (\<lambda>e. fst e \<noteq> t) xs = []"
  by (induction xs) auto

lemma run_renderUpdate_writes:
  "target_writes (run_closure K E (RenderUpdate t v f) u) =
     (if t > obs_lastUpdate E (calls u) \<and> sint (state u AND State_isBound K) > 0
      then target_writes u @ [SetValue v ((f OR persistentFlags u) OR LF_updateTargetInstance K)]
      else target_writes u)"
  by (simp add: updateTarget_def record_call_def target_writes_def Let_def)

lemma handleChange_layout_no_write:
  assumes l: "sint (obs_type E AND OT_Layout K) > 0"
    and h: "handleChange K E nv pv fl w = Inr w'"
  shows "target_writes w' = target_writes w"
proof (cases "state w AND State_isBound K = 0")
  case True
  then show ?thesis using h by (simp add: handleChange_def)
next
  case b: False
  let ?c = "expr_kind E \<noteq> EK_AccessScope K \<or> observerSlots E (calls w @ [GetValue]) > 1"
  show ?thesis
  proof (cases "adjusted_flags K fl w AND LF_updateTargetInstance K = 0")
    case True
    then show ?thesis
      using b h
      by (cases "mode w = BM_fromView K")
         (auto simp add: handleChange_def adjusted_flags_def Let_def evaluate_def record_call_def
            updateSource_def target_writes_def split: if_splits)
  next
    case False
    then show ?thesis
      using b h l
      by (cases "mode w = BM_fromView K"; cases ?c; cases "task w";
          cases "strict_neq (computed_value K E nv fl w) (obs_getValue E (calls w))")
         (auto simp add: handleChange_def adjusted_flags_def computed_value_def Let_def evaluate_def
            record_call_def queueRenderTask_def cancel_def target_writes_def)
  qed
qed


lemma handleChange_layout_queues_task:
  assumes b: "state w AND State_isBound K \<noteq> 0"
    and t: "adjusted_flags K fl w AND LF_updateTargetInstance K \<noteq> 0"
    and n: "strict_neq (computed_value K E nv fl w) (obs_getValue E (calls w))"
    and l: "sint (obs_type E AND OT_Layout K) > 0"
  shows "\<exists>w' cb. handleChange K E nv pv fl w = Inr w' \<and>
      cb = RenderUpdate (date_now E (call_trace K E fl w)) (computed_value K E nv fl w)
             (adjusted_flags K fl w) \<and>
      target_writes w' = target_writes w \<and>
      task w' = Some (nextTask w) \<and>
      renderQueue w' =
        filter (\<lambda>e. Some (fst e) \<noteq> task w) (renderQueue w) @ [(nextTask w, cb)] \<and>
      microQueue w' = filter (\<lambda>e. Some (fst e) \<noteq> task w) (microQueue w) \<and>
      (one_pending w \<longrightarrow> pending w' = [nextTask w] \<and> one_pending w') \<and>
      (\<forall>u. target_writes (run_closure K E cb u) =
         (if date_now E (call_trace K E fl w) > obs_lastUpdate E (calls u) \<and>
             sint (state u AND State_isBound K) > 0
          then target_writes u @
                 [SetValue (computed_value K E nv fl w)
                    ((adjusted_flags K fl w OR persistentFlags u) OR LF_updateTargetInstance K)]
          else target_writes u))"
proof -
  let ?c = "expr_kind E \<noteq> EK_AccessScope K \<or> observerSlots E (calls w @ [GetValue]) > 1"
  show ?thesis
    using assms
    by (cases "mode w = BM_fromView K"; cases ?c; cases "task w")
       (simp_all add: handleChange_def adjusted_flags_def computed_value_def Let_def evaluate_def
          record_call_def target_writes_def call_trace_def queueRenderTask_def cancel_def
          pending_def one_pending_def filter_all_out updateTarget_def)
qed

text \<open>
  C7. On a bound binding whose target observer has the \<^verbatim>\<open>Layout\<close> bit, no change
  notification makes a \<^verbatim>\<open>setValue\<close> call itself. One that is to update the target
  with a changed value cancels the task in the \<^verbatim>\<open>task\<close> field, if any, queues one
  render task stamped with \<^verbatim>\<open>Date.now()\<close> and keeps it in \<^verbatim>\<open>task\<close>; when at
  most the binding's task was waiting before, exactly the new one waits after. The queued
  task, when it runs, writes the target if its time stamp is greater than the observer's
  \<^verbatim>\<open>lastUpdate\<close> and the binding is bound, and does nothing otherwise.
\<close>

theorem handleChange_layout_defers_write:
  assumes b: "state w AND State_isBound K \<noteq> 0"
    and l: "sint (obs_type E AND OT_Layout K) > 0"
  shows "(\<forall>w'. handleChange K E nv pv fl w = Inr w' \<longrightarrow> target_writes w' = target_writes w) \<and>
    (adjusted_flags K fl w AND LF_updateTargetInstance K \<noteq> 0 \<and>
     strict_neq (computed_value K E nv fl w) (obs_getValue E (calls w)) \<longrightarrow>
     (\<exists>w' cb. handleChange K E nv pv fl w = Inr w' \<and>
      cb = RenderUpdate (date_now E (call_trace K E fl w)) (computed_value K E nv fl w)
             (adjusted_flags K fl w) \<and>
      target_writes w' = target_writes w \<and>
      task w' = Some (nextTask w) \<and>
      renderQueue w' =
        filter (\<lambda>e. Some (fst e) \<noteq> task w) (renderQueue w) @ [(nextTask w, cb)] \<and>
      microQueue w' = filter (\<lambda>e. Some (fst e) \<noteq> task w) (microQueue w) \<and>
      (one_pending w \<longrightarrow> pending w' = [nextTask w] \<and> one_pending w') \<and>
      (\<forall>u. target_writes (run_closure K E cb u) =
         (if date_now E (call_trace K E fl w) > obs_lastUpdate E (calls u) \<and>
             sint (state u AND State_isBound K) > 0
          then target_writes u @
                 [SetValue (computed_value K E nv fl w)
                    ((adjusted_flags K fl w OR persistentFlags u) OR LF_updateTargetInstance K)]
          else target_writes u))))"
  using handleChange_layout_no_write [OF l] handleChange_layout_queues_task [OF b _ _ l]
  by blast

theorem handleChange_layout_defers_write_witness:
  "state (sample_bound 2 4) AND State_isBound sample_enums \<noteq> 0 \<and>
   adjusted_flags sample_enums 1 (sample_bound 2 4) AND LF_updateTargetInstance sample_enums \<noteq> 0 \<and>
   strict_neq (computed_value sample_enums (sample_env 4) (Number 1) 1 (sample_bound 2 4))
     (obs_getValue (sample_env 4) (calls (sample_bound 2 4))) \<and>
   sint (obs_type (sample_env 4) AND OT_Layout sample_enums) > 0 \<and>
   one_pending (sample_bound 2 4) \<and>
   (\<exists>w'. handleChange sample_enums (sample_env 4) (Number 1) Undefined 1 (sample_bound 2 4) = Inr w' \<and>
         target_writes w' = target_writes (sample_bound 2 4) \<and>
         task w' = Some 0 \<and> pending w' = [0] \<and>
         renderQueue w' = [(0, RenderUpdate 6 (Number 1) 1)])"
proof -
  let ?K = sample_enums and ?E = "sample_env 4" and ?a = "sample_bound 2 4"
  have b: "state ?a AND State_isBound ?K \<noteq> 0"
    by (simp add: sample_bound_toView_layout sample_enums_def)
  have f: "adjusted_flags ?K 1 ?a = 1"
    by (simp add: sample_bound_toView_layout sample_enums_def adjusted_flags_def)
  have t: "adjusted_flags ?K 1 ?a AND LF_updateTargetInstance ?K \<noteq> 0"
    by (simp add: f) (simp add: sample_enums_def)
  have c: "computed_value ?K ?E (Number 1) 1 ?a = Number 1"
    by (simp add: sample_enums_def sample_env_def computed_value_def)
  have n: "strict_neq (computed_value ?K ?E (Number 1) 1 ?a) (obs_getValue ?E (calls ?a))"
    by (simp add: c) (simp add: sample_env_def strict_neq_def strict_eq_def)
  have l: "sint (obs_type ?E AND OT_Layout ?K) > 0"
    by (simp add: sample_enums_def sample_env_def)
  have p: "one_pending ?a"
    by (simp add: sample_bound_toView_layout one_pending_def pending_def)
  have d: "date_now ?E (call_trace ?K ?E 1 ?a) = 6"
    by (simp add: sample_bound_toView_layout sample_enums_def sample_env_def call_trace_def)
  have q: "renderQueue ?a = [] \<and> nextTask ?a = 0"
    by (simp add: sample_bound_toView_layout)
  from handleChange_layout_defers_write [OF b l, of "Number 1" Undefined 1] t n p c f d q
  have "\<exists>w'. handleChange ?K ?E (Number 1) Undefined 1 ?a = Inr w' \<and>
         target_writes w' = target_writes ?a \<and> task w' = Some 0 \<and> pending w' = [0] \<and>
         renderQueue w' = [(0, RenderUpdate 6 (Number 1) 1)]"
    by auto
  then show ?thesis using b t n l p by blast
qed

subsection \<open>Binding and unbinding\<close>




lemma dollar_bind_steps:
  "dollar_bind K E fl sc p w =
     (if state w AND State_isBound K \<noteq> 0 \<and> scope_of w = Some sc then w
      else bind_finish K fl sc p (bind_push K E fl sc p (bind_observer E fl (bind_enter K E fl sc p
             (if state w AND State_isBound K \<noteq> 0
              then dollar_unbind K E (fl OR LF_fromBind K) w else w)))))"
  unfolding dollar_bind_def bind_finish_def bind_push_def bind_observer_def bind_enter_def Let_def
  by (rule refl)

lemma unbind_frame:
  "target_writes (dollar_unbind K E fl w) = target_writes w"
  "source_writes (dollar_unbind K E fl w) = source_writes w"
  "microQueue (dollar_unbind K E fl w) = microQueue w"
  "renderQueue (dollar_unbind K E fl w) = renderQueue w"
  "task (dollar_unbind K E fl w) = task w"
  "nextTask (dollar_unbind K E fl w) = nextTask w"
  "mode (dollar_unbind K E fl w) = mode w"
  "targetObserver (dollar_unbind K E fl w) = targetObserver w"
  by (simp_all add: dollar_unbind_def Let_def record_call_def target_writes_def source_writes_def)

lemma bind_enter_frame:
  "target_writes (bind_enter K E fl sc p w) = target_writes w"
  "microQueue (bind_enter K E fl sc p w) = microQueue w"
  "renderQueue (bind_enter K E fl sc p w) = renderQueue w"
  "task (bind_enter K E fl sc p w) = task w"
  "nextTask (bind_enter K E fl sc p w) = nextTask w"
  "mode (bind_enter K E fl sc p w) = mode w"
  "targetObserver (bind_enter K E fl sc p w) = targetObserver w"
  "persistentFlags (bind_enter K E fl sc p w) = fl AND LF_persistentBindingFlags K"
  "calls (bind_enter K E fl sc p w) = calls w @ (if expr_hasBind E then [ExprBind fl sc] else [])"
  by (simp_all add: bind_enter_def Let_def record_call_def target_writes_def)

lemma bind_observer_frame:
  "target_writes (bind_observer E fl w) = target_writes w"
  "microQueue (bind_observer E fl w) = microQueue w"
  "renderQueue (bind_observer E fl w) = renderQueue w"
  "task (bind_observer E fl w) = task w"
  "nextTask (bind_observer E fl w) = nextTask w"
  "mode (bind_observer E fl w) = mode w"
  "persistentFlags (bind_observer E fl w) = persistentFlags w"
  "calls (bind_observer E fl w) =
     calls w @ (if \<not> targetObserver w then [NewAttributeObserver fl] else []) @
       (if obs_hasBind E then [ObsBind fl] else [])"
  by (simp_all add: bind_observer_def Let_def record_call_def target_writes_def)

lemma bind_finish_frame:
  "target_writes (bind_finish K fl sc p w) = target_writes w"
  "microQueue (bind_finish K fl sc p w) = microQueue w"
  "renderQueue (bind_finish K fl sc p w) = renderQueue w"
  "task (bind_finish K fl sc p w) = task w"
  "nextTask (bind_finish K fl sc p w) = nextTask w"
  by (simp_all add: bind_finish_def Let_def record_call_def target_writes_def)

lemma bind_push_writes:
  "mode w AND toViewOrOneTime K \<noteq> 0 \<Longrightarrow>
   target_writes (bind_push K E fl sc p w) =
     target_writes w @
       [SetValue (expr_evaluate E (calls w) fl (Some sc) p)
          ((fl OR persistentFlags w) OR LF_updateTargetInstance K)]"
  by (cases "task w")
     (simp_all add: bind_push_def Let_def record_call_def target_writes_def evaluate_def
        updateTarget_def queueMicroTask_def cancel_def)

lemma bind_push_queues:
  "mode w AND toViewOrOneTime K \<noteq> 0 \<Longrightarrow>
   (obs_type E AND OT_Node K \<noteq> 0 \<longrightarrow>
      microQueue (bind_push K E fl sc p w) =
        filter (\<lambda>e. Some (fst e) \<noteq> task w) (microQueue w) @ [(nextTask w, BindUpdate fl sc p)] \<and>
      renderQueue (bind_push K E fl sc p w) = filter (\<lambda>e. Some (fst e) \<noteq> task w) (renderQueue w) \<and>
      task (bind_push K E fl sc p w) = Some (nextTask w)) \<and>
   (obs_type E AND OT_Node K = 0 \<longrightarrow>
      microQueue (bind_push K E fl sc p w) = microQueue w \<and>
      renderQueue (bind_push K E fl sc p w) = renderQueue w \<and>
      task (bind_push K E fl sc p w) = task w)"
  by (cases "task w")
     (simp_all add: bind_push_def Let_def record_call_def evaluate_def
        updateTarget_def queueMicroTask_def cancel_def)

lemma run_bindUpdate_writes:
  "target_writes (run_closure K E (BindUpdate fl sc p) u) =
     target_writes u @
       [SetValue (expr_evaluate E (calls u) fl (Some sc) p)
          ((fl OR persistentFlags u) OR LF_updateTargetInstance K)]"
  by (simp add: updateTarget_def evaluate_def record_call_def target_writes_def Let_def)

text \<open>
  C8. A \<^verbatim>\<open>$bind\<close> that binds (the binding is not already bound to that scope) in a
  mode with \<^verbatim>\<open>toView\<close> or \<^verbatim>\<open>oneTime\<close> makes, within the call, exactly one
  \<^verbatim>\<open>setValue\<close> call, with the source expression evaluated in that call. It queues a
  micro task, kept in \<^verbatim>\<open>task\<close>, exactly when the observer's type has the
  \<^verbatim>\<open>Node\<close> bit; that task, when it runs, evaluates the expression and makes the same
  \<^verbatim>\<open>setValue\<close> call on the binding's observer.
\<close>

theorem bind_pushes_eagerly_and_queues_for_node:
  assumes g: "\<not> (state w AND State_isBound K \<noteq> 0 \<and> scope_of w = Some sc)"
    and m: "mode w AND toViewOrOneTime K \<noteq> 0"
  shows "target_writes (dollar_bind K E fl sc p w) =
           target_writes w @
             [SetValue (expr_evaluate E (trace_before_push K E fl sc w) fl (Some sc) p)
                (fl OR LF_updateTargetInstance K)] \<and>
         (obs_type E AND OT_Node K \<noteq> 0 \<longrightarrow>
            microQueue (dollar_bind K E fl sc p w) =
              filter (\<lambda>e. Some (fst e) \<noteq> task w) (microQueue w) @
                [(nextTask w, BindUpdate fl sc p)] \<and>
            renderQueue (dollar_bind K E fl sc p w) =
              filter (\<lambda>e. Some (fst e) \<noteq> task w) (renderQueue w) \<and>
            task (dollar_bind K E fl sc p w) = Some (nextTask w)) \<and>
         (obs_type E AND OT_Node K = 0 \<longrightarrow>
            microQueue (dollar_bind K E fl sc p w) = microQueue w \<and>
            renderQueue (dollar_bind K E fl sc p w) = renderQueue w \<and>
            task (dollar_bind K E fl sc p w) = task w) \<and>
         (\<forall>u. target_writes (run_closure K E (BindUpdate fl sc p) u) =
            target_writes u @
              [SetValue (expr_evaluate E (calls u) fl (Some sc) p)
                 ((fl OR persistentFlags u) OR LF_updateTargetInstance K)])"
proof -
  let ?w0 = "if state w AND State_isBound K \<noteq> 0
             then dollar_unbind K E (fl OR LF_fromBind K) w else w"
  let ?w2 = "bind_observer E fl (bind_enter K E fl sc p ?w0)"
  have d: "dollar_bind K E fl sc p w = bind_finish K fl sc p (bind_push K E fl sc p ?w2)"
    using g by (simp only: dollar_bind_steps if_False)
  have f0: "target_writes ?w0 = target_writes w" "microQueue ?w0 = microQueue w"
    "renderQueue ?w0 = renderQueue w" "task ?w0 = task w" "nextTask ?w0 = nextTask w"
    "mode ?w0 = mode w" "targetObserver ?w0 = targetObserver w"
    by (simp_all add: unbind_frame)
  have f2: "target_writes ?w2 = target_writes w" "microQueue ?w2 = microQueue w"
    "renderQueue ?w2 = renderQueue w" "task ?w2 = task w" "nextTask ?w2 = nextTask w"
    "mode ?w2 = mode w" "persistentFlags ?w2 = fl AND LF_persistentBindingFlags K"
    by (simp_all only: bind_observer_frame bind_enter_frame f0)
  have c2: "calls ?w2 = trace_before_push K E fl sc w"
    by (simp only: bind_observer_frame bind_enter_frame f0 trace_before_push_def append_assoc)
  have m2: "mode ?w2 AND toViewOrOneTime K \<noteq> 0"
    using m by (simp add: f2)
  have a: "(fl OR (fl AND LF_persistentBindingFlags K)) = fl"
    by (simp add: word_ao_absorbs)
  have w: "target_writes (dollar_bind K E fl sc p w) =
           target_writes w @
             [SetValue (expr_evaluate E (trace_before_push K E fl sc w) fl (Some sc) p)
                (fl OR LF_updateTargetInstance K)]"
    by (simp only: d bind_finish_frame bind_push_writes [OF m2] f2 c2 a)
  have q: "(obs_type E AND OT_Node K \<noteq> 0 \<longrightarrow>
            microQueue (dollar_bind K E fl sc p w) =
              filter (\<lambda>e. Some (fst e) \<noteq> task w) (microQueue w) @
                [(nextTask w, BindUpdate fl sc p)] \<and>
            renderQueue (dollar_bind K E fl sc p w) =
              filter (\<lambda>e. Some (fst e) \<noteq> task w) (renderQueue w) \<and>
            task (dollar_bind K E fl sc p w) = Some (nextTask w)) \<and>
         (obs_type E AND OT_Node K = 0 \<longrightarrow>
            microQueue (dollar_bind K E fl sc p w) = microQueue w \<and>
            renderQueue (dollar_bind K E fl sc p w) = renderQueue w \<and>
            task (dollar_bind K E fl sc p w) = task w)"
    using bind_push_queues [OF m2, of E fl sc p] by (simp only: d bind_finish_frame f2)
  show ?thesis using w q run_bindUpdate_writes by blast
qed

theorem bind_pushes_eagerly_and_queues_for_node_witness:
  "\<not> (state (new_binding sample_enums 2) AND State_isBound sample_enums \<noteq> 0 \<and>
       scope_of (new_binding sample_enums 2) = Some 1) \<and>
   mode (new_binding sample_enums 2) AND toViewOrOneTime sample_enums \<noteq> 0 \<and>
   obs_type (sample_env 2) AND OT_Node sample_enums \<noteq> 0 \<and>
   target_writes (dollar_bind sample_enums (sample_env 2) 0 1 None (new_binding sample_enums 2)) =
     [SetValue (String ''x'') 1] \<and>
   microQueue (dollar_bind sample_enums (sample_env 2) 0 1 None (new_binding sample_enums 2)) =
     [(0, BindUpdate 0 1 None)] \<and>
   obs_type (sample_env 0) AND OT_Node sample_enums = 0 \<and>
   target_writes (dollar_bind sample_enums (sample_env 0) 0 1 None (new_binding sample_enums 2)) =
     [SetValue (String ''x'') 1] \<and>
   microQueue (dollar_bind sample_enums (sample_env 0) 0 1 None (new_binding sample_enums 2)) = []"
proof -
  let ?K = sample_enums and ?w = "new_binding sample_enums 2"
  have g: "\<not> (state ?w AND State_isBound ?K \<noteq> 0 \<and> scope_of ?w = Some 1)"
    by (simp add: new_binding_def sample_enums_def)
  have m: "mode ?w AND toViewOrOneTime ?K \<noteq> 0"
    by (simp add: new_binding_def sample_enums_def toViewOrOneTime_def)
  have n2: "obs_type (sample_env 2) AND OT_Node ?K \<noteq> 0"
    by (simp add: sample_env_def sample_enums_def)
  have n0: "obs_type (sample_env 0) AND OT_Node ?K = 0"
    by (simp add: sample_env_def sample_enums_def)
  have e: "expr_evaluate (sample_env ty) tr 0 (Some 1) None = String ''x''" for ty tr
    by (simp add: sample_env_def)
  have k: "0 OR LF_updateTargetInstance ?K = 1"
    by (simp add: sample_enums_def)
  have i: "target_writes ?w = [] \<and> microQueue ?w = [] \<and> nextTask ?w = 0"
    by (simp add: new_binding_def target_writes_def)
  from bind_pushes_eagerly_and_queues_for_node [OF g m, of "sample_env 2" 0 None] n2 e k i
  have a: "target_writes (dollar_bind ?K (sample_env 2) 0 1 None ?w) = [SetValue (String ''x'') 1] \<and>
           microQueue (dollar_bind ?K (sample_env 2) 0 1 None ?w) = [(0, BindUpdate 0 1 None)]"
    by simp
  from bind_pushes_eagerly_and_queues_for_node [OF g m, of "sample_env 0" 0 None] n0 e k i
  have b: "target_writes (dollar_bind ?K (sample_env 0) 0 1 None ?w) = [SetValue (String ''x'') 1] \<and>
           microQueue (dollar_bind ?K (sample_env 0) 0 1 None ?w) = []"
    by simp
  show ?thesis using g m n2 n0 a b by blast
qed

subsection \<open>Unbound bindings\<close>




subsection \<open>At most one waiting task\<close>

text \<open>
  Every operation keeps \<open>one_pending\<close>: each place that queues a task cancels the one
  in \<^verbatim>\<open>task\<close> first and stores the new one there.
\<close>

lemma one_pending_cong:
  "microQueue a = microQueue b \<Longrightarrow> renderQueue a = renderQueue b \<Longrightarrow> task a = task b \<Longrightarrow>
   one_pending a = one_pending b"
  by (simp add: one_pending_def pending_def)

lemma filter_task_out:
  "fst ` set xs \<subseteq> set_option t \<Longrightarrow> filter (\<lambda>e. Some (fst e) \<noteq> t) xs = []"
  by (induction xs) auto

lemma one_pending_requeue:
  assumes "one_pending w"
    and "(microQueue w' = filter (\<lambda>e. Some (fst e) \<noteq> task w) (microQueue w) @ [(n, cb)] \<and>
          renderQueue w' = filter (\<lambda>e. Some (fst e) \<noteq> task w) (renderQueue w)) \<or>
         (microQueue w' = filter (\<lambda>e. Some (fst e) \<noteq> task w) (microQueue w) \<and>
          renderQueue w' = filter (\<lambda>e. Some (fst e) \<noteq> task w) (renderQueue w) @ [(n, cb)])"
    and "task w' = Some n"
  shows "one_pending w'"
proof -
  have "fst ` set (microQueue w) \<subseteq> set_option (task w)" "fst ` set (renderQueue w) \<subseteq> set_option (task w)"
    using assms(1) by (auto simp: one_pending_def pending_def)
  then have "filter (\<lambda>e. Some (fst e) \<noteq> task w) (microQueue w) = []"
    "filter (\<lambda>e. Some (fst e) \<noteq> task w) (renderQueue w) = []"
    by (simp_all add: filter_task_out)
  then show ?thesis using assms(2,3) by (auto simp: one_pending_def pending_def)
qed

lemma one_pending_new_binding: "one_pending (new_binding K m)"
  by (simp add: one_pending_def pending_def new_binding_def)

lemma one_pending_unbind: "one_pending w \<Longrightarrow> one_pending (dollar_unbind K E fl w)"
  by (simp add: one_pending_cong [of "dollar_unbind K E fl w" w] unbind_frame)

lemma one_pending_bind:
  assumes "one_pending w"
  shows "one_pending (dollar_bind K E fl sc p w)"
proof (cases "state w AND State_isBound K \<noteq> 0 \<and> scope_of w = Some sc")
  case True
  then show ?thesis using assms by (simp add: dollar_bind_def)
next
  case g: False
  let ?w0 = "if state w AND State_isBound K \<noteq> 0
             then dollar_unbind K E (fl OR LF_fromBind K) w else w"
  let ?w2 = "bind_observer E fl (bind_enter K E fl sc p ?w0)"
  have d: "dollar_bind K E fl sc p w = bind_finish K fl sc p (bind_push K E fl sc p ?w2)"
    using g by (simp only: dollar_bind_steps if_False)
  have f2: "microQueue ?w2 = microQueue w" "renderQueue ?w2 = renderQueue w" "task ?w2 = task w"
    "mode ?w2 = mode w"
    by (simp_all add: bind_observer_frame bind_enter_frame unbind_frame)
  have p2: "one_pending ?w2"
    using assms one_pending_cong [OF f2(1-3)] by simp
  have "one_pending (bind_push K E fl sc p ?w2)"
  proof (cases "mode ?w2 AND toViewOrOneTime K \<noteq> 0")
    case False
    then show ?thesis using p2 by (simp add: bind_push_def)
  next
    case m: True
    show ?thesis
    proof (cases "obs_type E AND OT_Node K = 0")
      case True
      with bind_push_queues [OF m, of E fl sc p] p2 show ?thesis
        using one_pending_cong [of "bind_push K E fl sc p ?w2" ?w2] by blast
    next
      case False
      with bind_push_queues [OF m, of E fl sc p] show ?thesis
        using one_pending_requeue [OF p2, of "bind_push K E fl sc p ?w2"] by blast
    qed
  qed
  then show ?thesis
    using one_pending_cong [of "bind_finish K fl sc p (bind_push K E fl sc p ?w2)" "bind_push K E fl sc p ?w2"]
    by (simp add: d bind_finish_frame)
qed

lemma one_pending_run_closure:
  "one_pending w \<Longrightarrow> one_pending (run_closure K E cb w)"
  by (cases cb) (simp_all add: one_pending_def pending_def updateTarget_def evaluate_def record_call_def Let_def)

lemma one_pending_runMicroTask: "one_pending w \<Longrightarrow> one_pending (runMicroTask K E w)"
proof (cases "microQueue w")
  case Nil
  then show "one_pending w \<Longrightarrow> ?thesis" by (simp add: runMicroTask_def)
next
  case (Cons e rest)
  assume "one_pending w"
  with Cons have "one_pending (w\<lparr>microQueue := rest\<rparr>)"
    by (auto simp: one_pending_def pending_def)
  then show ?thesis using Cons by (simp add: runMicroTask_def one_pending_run_closure)
qed

lemma one_pending_runRenderTask: "one_pending w \<Longrightarrow> one_pending (runRenderTask K E w)"
proof (cases "renderQueue w")
  case Nil
  then show "one_pending w \<Longrightarrow> ?thesis" by (simp add: runRenderTask_def)
next
  case (Cons e rest)
  assume "one_pending w"
  with Cons have "one_pending (w\<lparr>renderQueue := rest\<rparr>)"
    by (auto simp: one_pending_def pending_def)
  then show ?thesis using Cons by (simp add: runRenderTask_def one_pending_run_closure)
qed


lemma handleChange_source_queues:
  assumes "adjusted_flags K fl w AND LF_updateTargetInstance K = 0"
    and "handleChange K E nv pv fl w = Inr w'"
  shows "microQueue w' = microQueue w \<and> renderQueue w' = renderQueue w \<and> task w' = task w"
  using assms
  by (cases "mode w = BM_fromView K")
     (auto simp add: handleChange_def adjusted_flags_def Let_def evaluate_def record_call_def
        updateSource_def split: if_splits)

lemma handleChange_target_queues:
  assumes "state w AND State_isBound K \<noteq> 0"
    and "adjusted_flags K fl w AND LF_updateTargetInstance K \<noteq> 0"
    and "\<not> (strict_neq (computed_value K E nv fl w) (obs_getValue E (calls w)) \<and>
            sint (obs_type E AND OT_Layout K) > 0)"
    and "handleChange K E nv pv fl w = Inr w'"
  shows "microQueue w' = microQueue w \<and> renderQueue w' = renderQueue w \<and> task w' = task w"
proof -
  let ?c = "expr_kind E \<noteq> EK_AccessScope K \<or> observerSlots E (calls w @ [GetValue]) > 1"
  show ?thesis
    using assms
    by (cases "mode w = BM_fromView K"; cases ?c;
        cases "strict_neq (computed_value K E nv fl w) (obs_getValue E (calls w))")
       (auto simp add: handleChange_def adjusted_flags_def computed_value_def Let_def evaluate_def
          record_call_def updateTarget_def)
qed

lemma handleChange_layout_queues:
  assumes "state w AND State_isBound K \<noteq> 0"
    and "adjusted_flags K fl w AND LF_updateTargetInstance K \<noteq> 0"
    and "strict_neq (computed_value K E nv fl w) (obs_getValue E (calls w))"
    and "sint (obs_type E AND OT_Layout K) > 0"
    and "handleChange K E nv pv fl w = Inr w'"
  shows "\<exists>cb. microQueue w' = filter (\<lambda>e. Some (fst e) \<noteq> task w) (microQueue w) \<and>
      renderQueue w' = filter (\<lambda>e. Some (fst e) \<noteq> task w) (renderQueue w) @ [(nextTask w, cb)] \<and>
      task w' = Some (nextTask w)"
proof -
  let ?c = "expr_kind E \<noteq> EK_AccessScope K \<or> observerSlots E (calls w @ [GetValue]) > 1"
  show ?thesis
    using assms
    by (cases "mode w = BM_fromView K"; cases ?c; cases "task w")
       (auto simp add: handleChange_def adjusted_flags_def computed_value_def Let_def evaluate_def
          record_call_def queueRenderTask_def cancel_def)
qed

lemma one_pending_handleChange:
  assumes p: "one_pending w" and h: "handleChange K E nv pv fl w = Inr w'"
  shows "one_pending w'"
proof (cases "state w AND State_isBound K = 0")
  case True
  then show ?thesis using p h by (simp add: handleChange_def)
next
  case b: False
  show ?thesis
  proof (cases "adjusted_flags K fl w AND LF_updateTargetInstance K = 0")
    case True
    from handleChange_source_queues [OF True h] p show ?thesis
      using one_pending_cong [of w' w] by blast
  next
    case t: False
    show ?thesis
    proof (cases "strict_neq (computed_value K E nv fl w) (obs_getValue E (calls w)) \<and>
            sint (obs_type E AND OT_Layout K) > 0")
      case False
      from handleChange_target_queues [OF b t False h] p show ?thesis
        using one_pending_cong [of w' w] by blast
    next
      case True
      with handleChange_layout_queues [OF b t _ _ h]
      obtain cb where "microQueue w' = filter (\<lambda>e. Some (fst e) \<noteq> task w) (microQueue w)"
        "renderQueue w' = filter (\<lambda>e. Some (fst e) \<noteq> task w) (renderQueue w) @ [(nextTask w, cb)]"
        "task w' = Some (nextTask w)"
        by blast
      then show ?thesis using one_pending_requeue [OF p, of w' "nextTask w" cb] by blast
    qed
  qed
qed


section \<open>Properties of the router\<close>

lemma split_path_single: "CHR ''/'' \<notin> set s \<Longrightarrow> split_path s = [s]"
  by (induction s) auto

lemma find_dep_name: "find (dep_matches seg) ds = Some d \<Longrightarrow> cname d = seg"
  by (auto simp: find_Some_iff dep_matches_def)

lemma find_dep_exists:
  "c \<in> set ds \<Longrightarrow> dep_matches seg c \<Longrightarrow> \<exists>d. find (dep_matches seg) ds = Some d"
  by (cases "find (dep_matches seg) ds") (auto simp: find_None_iff)

lemma resolve_append:
  "resolve rm anc node (pre @ rest) =
     (case resolve rm anc node pre of
        Inl e \<Rightarrow> Inl e
      | Inr trail \<Rightarrow> resolve rm (butlast trail) (last trail) rest)"
  by (induction pre arbitrary: anc node) (auto split: option.splits)

lemma resolve_trail_nonempty: "resolve rm anc node segs = Inr trail \<Longrightarrow> trail \<noteq> []"
  by (induction segs arbitrary: anc node) (auto split: option.splits if_splits)

text \<open>
  C1. Let a component without route metadata be a dependency of the root, its name no
  configured route of the root. Loading its name resolves, under
  \<^verbatim>\<open>configured-first\<close>, to the dependency of that name; under
  \<^verbatim>\<open>configured-only\<close> it fails with a RouteMatchError that carries the name and the
  root's name.
\<close>

theorem dependency_by_name_only_when_configured_first:
  assumes d: "c \<in> set (cdeps root)"
    and np: "cpath c = None"
    and nc: "find (child_matches (cname c)) (cchildren root) = None"
    and nr: "cname c \<noteq> cname root"
    and ns: "CHR ''/'' \<notin> set (cname c)"
  shows "(\<exists>d. load ConfiguredFirst root (cname c) = Inr [root, d] \<and> cname d = cname c \<and>
              d \<in> set (cdeps root)) \<and>
         load ConfiguredOnly root (cname c) = Inl (RouteMatchError (cname c) (cname root))"
proof -
  have m: "dep_matches (cname c) c"
    using np by (simp add: dep_matches_def)
  from find_dep_exists [OF d m]
  obtain d' where f: "find (dep_matches (cname c)) (cdeps root) = Some d'"
    by blast
  then have n: "cname d' = cname c"
    by (rule find_dep_name)
  have i: "d' \<in> set (cdeps root)"
    using f by (auto simp: find_Some_iff)
  have "load ConfiguredFirst root (cname c) = Inr [root, d']"
    using f n nc nr ns by (simp add: load_def split_path_single match_segment_def)
  moreover
  have "load ConfiguredOnly root (cname c) = Inl (RouteMatchError (cname c) (cname root))"
    using nc ns by (simp add: load_def split_path_single match_segment_def friendly_path_def)
  ultimately show ?thesis using n i by blast
qed

theorem dependency_by_name_only_when_configured_first_witness:
  "A01 \<in> set (cdeps (Root_with_dependency A01)) \<and> cpath A01 = None \<and>
   find (child_matches (cname A01)) (cchildren (Root_with_dependency A01)) = None \<and>
   cname A01 \<noteq> cname (Root_with_dependency A01) \<and> CHR ''/'' \<notin> set (cname A01) \<and>
   load ConfiguredFirst (Root_with_dependency A01) ''a01'' = Inr [Root_with_dependency A01, A01] \<and>
   load ConfiguredOnly (Root_with_dependency A01) ''a01'' = Inl (RouteMatchError ''a01'' ''root'')"
proof -
  let ?r = "Root_with_dependency A01"
  have d: "A01 \<in> set (cdeps ?r)" and np: "cpath A01 = None"
    and nc: "find (child_matches (cname A01)) (cchildren ?r) = None"
    and nr: "cname A01 \<noteq> cname ?r" and ns: "CHR ''/'' \<notin> set (cname A01)"
    by (simp_all add: Root_with_dependency_def A01_def)
  have e: "cname A01 = ''a01''" "cname ?r = ''root''" "cdeps ?r = [A01]"
    by (simp_all add: Root_with_dependency_def A01_def)
  from dependency_by_name_only_when_configured_first [OF d np nc nr ns]
  have "load ConfiguredFirst ?r ''a01'' = Inr [?r, A01] \<and>
        load ConfiguredOnly ?r ''a01'' = Inl (RouteMatchError ''a01'' ''root'')"
    by (auto simp: e)
  then show ?thesis using d np nc nr ns by blast
qed



text \<open>
  C6. Let a component that declares its own \<^verbatim>\<open>path\<close> be a dependency of the root,
  that path no configured route of the root and no dependency's name. Loading the path
  fails in either routing mode with a RouteMatchError that carries the path and the
  root's name.
\<close>

theorem dependency_not_loaded_by_own_path:
  assumes d: "c \<in> set (cdeps root)"
    and p: "cpath c = Some q"
    and nc: "find (child_matches q) (cchildren root) = None"
    and nd: "\<forall>d \<in> set (cdeps root). cname d \<noteq> q"
    and ns: "CHR ''/'' \<notin> set q"
  shows "load rm root q = Inl (RouteMatchError q (cname root))"
proof -
  have "find (dep_matches q) (cdeps root) = None"
    using nd by (auto simp: find_None_iff dep_matches_def)
  then have "match_segment rm root q = None"
    using nc by (cases rm) (simp_all add: match_segment_def)
  then show ?thesis
    using ns by (simp add: load_def split_path_single friendly_path_def)
qed

theorem dependency_not_loaded_by_own_path_witness:
  "A01_with_path \<in> set (cdeps (Root_with_dependency A01_with_path)) \<and>
   cpath A01_with_path = Some ''a'' \<and>
   find (child_matches ''a'') (cchildren (Root_with_dependency A01_with_path)) = None \<and>
   map cname (cdeps (Root_with_dependency A01_with_path)) = [''a01''] \<and>
   CHR ''/'' \<notin> set ''a'' \<and>
   load ConfiguredFirst (Root_with_dependency A01_with_path) ''a'' =
     Inl (RouteMatchError ''a'' ''root'') \<and>
   load ConfiguredOnly (Root_with_dependency A01_with_path) ''a'' =
     Inl (RouteMatchError ''a'' ''root'')"
proof -
  let ?c = A01_with_path
  let ?r = "Root_with_dependency A01_with_path"
  have d: "?c \<in> set (cdeps ?r)"
    and p: "cpath ?c = Some ''a''"
    and nc: "find (child_matches ''a'') (cchildren ?r) = None"
    and nd: "\<forall>d \<in> set (cdeps ?r). cname d \<noteq> ''a''"
    and ns: "CHR ''/'' \<notin> set ''a''"
    by (simp_all add: Root_with_dependency_def A01_with_path_def)
  have e: "cname ?r = ''root''"
    by (simp add: Root_with_dependency_def)
  from dependency_not_loaded_by_own_path [OF d p nc nd ns]
  have "load rm ?r ''a'' = Inl (RouteMatchError ''a'' ''root'')" for rm
    by (simp add: e)
  moreover have "map cname (cdeps ?r) = [''a01'']"
    by (simp add: Root_with_dependency_def A01_with_path_def)
  ultimately show ?thesis using d p nc ns by blast
qed

text \<open>
  C2. Let the segments before some segment of the path resolve, from the root, to a chain
  of components, and let that next segment be the name of a component of the chain,
  matched by name at the end of the chain if matched at all. Then loading the path fails
  with a RouteMatchError that carries the segment and the whole chain, joined by
  \<^verbatim>\<open>/\<close>: for \<^verbatim>\<open>a11/b11/a11\<close> it carries \<^verbatim>\<open>a11\<close> and \<^verbatim>\<open>root/a11/b11\<close>.
\<close>

theorem revisiting_ancestor_rejected:
  assumes s: "split_path path = pre @ seg # rest"
    and r: "resolve rm [] root pre = Inr trail"
    and v: "seg \<in> set (map cname trail)"
    and n: "\<forall>c. match_segment rm (last trail) seg = Some c \<longrightarrow> cname c = seg"
  shows "load rm root path = Inl (RouteMatchError seg (friendly_path trail))"
proof -
  have t: "butlast trail @ [last trail] = trail"
    using resolve_trail_nonempty [OF r] by simp
  have "resolve rm (butlast trail) (last trail) (seg # rest) =
          Inl (RouteMatchError seg (friendly_path trail))"
    using v n by (cases "match_segment rm (last trail) seg") (simp_all add: t)
  then show ?thesis
    by (simp add: load_def s resolve_append r)
qed

theorem revisiting_ancestor_rejected_witness:
  "split_path ''a11/b11/a11'' = [''a11'', ''b11''] @ ''a11'' # [] \<and>
   resolve ConfiguredFirst [] Root_deep [''a11'', ''b11''] = Inr [Root_deep, A11, B11] \<and>
   ''a11'' \<in> set (map cname [Root_deep, A11, B11]) \<and>
   match_segment ConfiguredFirst (last [Root_deep, A11, B11]) ''a11'' = None \<and>
   load ConfiguredFirst Root_deep ''a11/b11/a11'' = Inl (RouteMatchError ''a11'' ''root/a11/b11'') \<and>
   resolve ConfiguredFirst [] Root_back [''a11'', ''b11''] = Inr [Root_back, A11_back, B11_back] \<and>
   match_segment ConfiguredFirst (last [Root_back, A11_back, B11_back]) ''a11'' =
     Some (Component ''a11'' None [] []) \<and>
   load ConfiguredFirst Root_back ''a11/b11/a11'' = Inl (RouteMatchError ''a11'' ''root/a11/b11'')"
proof -
  have s: "split_path ''a11/b11/a11'' = [''a11'', ''b11''] @ ''a11'' # []"
    by simp
  have r: "resolve ConfiguredFirst [] Root_deep [''a11'', ''b11''] = Inr [Root_deep, A11, B11]"
    by (simp add: Root_deep_def A11_def B11_def C01_def match_segment_def dep_matches_def)
  have v: "''a11'' \<in> set (map cname [Root_deep, A11, B11])"
    by (simp add: A11_def)
  have m: "match_segment ConfiguredFirst (last [Root_deep, A11, B11]) ''a11'' = None"
    by (simp add: B11_def C01_def match_segment_def dep_matches_def)
  have n: "\<forall>c. match_segment ConfiguredFirst (last [Root_deep, A11, B11]) ''a11'' = Some c \<longrightarrow>
             cname c = ''a11''"
    using m by auto
  have f: "friendly_path [Root_deep, A11, B11] = ''root/a11/b11''"
    by (simp add: friendly_path_def Root_deep_def A11_def B11_def)
  have a: "load ConfiguredFirst Root_deep ''a11/b11/a11'' =
             Inl (RouteMatchError ''a11'' ''root/a11/b11'')"
    using revisiting_ancestor_rejected [OF s r v n] by (simp only: f)
  have r': "resolve ConfiguredFirst [] Root_back [''a11'', ''b11''] =
              Inr [Root_back, A11_back, B11_back]"
    by (simp add: Root_back_def A11_back_def B11_back_def match_segment_def dep_matches_def)
  have v': "''a11'' \<in> set (map cname [Root_back, A11_back, B11_back])"
    by (simp add: A11_back_def)
  have m': "match_segment ConfiguredFirst (last [Root_back, A11_back, B11_back]) ''a11'' =
              Some (Component ''a11'' None [] [])"
    by (simp add: B11_back_def match_segment_def dep_matches_def)
  have n': "\<forall>c. match_segment ConfiguredFirst (last [Root_back, A11_back, B11_back]) ''a11'' =
              Some c \<longrightarrow> cname c = ''a11''"
    using m' by auto
  have f': "friendly_path [Root_back, A11_back, B11_back] = ''root/a11/b11''"
    by (simp add: friendly_path_def Root_back_def A11_back_def B11_back_def)
  have b: "load ConfiguredFirst Root_back ''a11/b11/a11'' =
             Inl (RouteMatchError ''a11'' ''root/a11/b11'')"
    using revisiting_ancestor_rejected [OF s r' v' n'] by (simp only: f')
  show ?thesis using s r v m a r' m' b by blast
qed


end
